theory Spec2Isabelle
  imports Main "HOL-Library.AList"
begin

section \<open>The window manager of electron-starter\<close>

text \<open>
  A shallow embedding of \<^verbatim>\<open>src/js/main/WindowManager.js\<close>. The class keeps a JavaScript
  \<^verbatim>\<open>Map\<close> from window types to \<^verbatim>\<open>BrowserWindow\<close> objects and talks to three external
  collaborators: the window toolkit, the operating-system shell and the IPC channel.
  The model passes the manager's state explicitly. A window object is a handle into a
  store of toolkit windows; every call made to a collaborator is appended to a log, so
  that "no request was issued" and "exactly one request was issued" are statements
  about the state. An exception thrown by the source is the \<open>Inl\<close> branch of a sum.

  The definitions carry the source's names. \<^verbatim>\<open>show\<close> is \<open>show_win\<close> (the bare name is
  a keyword of the proof language); \<^verbatim>\<open>_showMain\<close>, \<^verbatim>\<open>_showAbout\<close> and
  \<^verbatim>\<open>_onRequestShowURL\<close> lose their underscore; the two anonymous \<^verbatim>\<open>closed\<close> listeners
  are \<open>onMainClosed\<close> and \<open>onAboutClosed\<close>; a method of a window object \<^verbatim>\<open>w.m()\<close> is
  \<open>win_m\<close>.
\<close>

subsection \<open>JavaScript values used as window types\<close>

text \<open>
  The argument \<^verbatim>\<open>type\<close> is compared with \<^verbatim>\<open>===\<close> (the \<^verbatim>\<open>switch\<close>) and used as a
  \<^verbatim>\<open>Map\<close> key. On \<^verbatim>\<open>undefined\<close>, \<^verbatim>\<open>null\<close> and strings both comparisons are
  structural equality.
\<close>

datatype jsval = Undefined | Null | Str string

text \<open>
  \<^verbatim>\<open>WindowTypes = { Main: 'main', About: 'about' }\<close>. Reading a property that an
  object literal does not have yields \<^verbatim>\<open>undefined\<close>.
\<close>

definition WindowTypes :: "(string \<times> jsval) list" where
  "WindowTypes = [(''Main'', Str ''main''), (''About'', Str ''about'')]"

definition js_prop :: "(string \<times> jsval) list \<Rightarrow> string \<Rightarrow> jsval" where
  "js_prop obj name = (case map_of obj name of None \<Rightarrow> Undefined | Some v \<Rightarrow> v)"

definition WindowTypes_Main :: jsval where
  "WindowTypes_Main = js_prop WindowTypes ''Main''"

definition WindowTypes_About :: jsval where
  "WindowTypes_About = js_prop WindowTypes ''About''"

definition WindowTypes_GraphicEqualizer :: jsval where
  "WindowTypes_GraphicEqualizer = js_prop WindowTypes ''GraphicEqualizer''"

subsection \<open>The toolkit's windows and the log of external calls\<close>

type_synonym handle = nat

datatype optval = N nat | B bool

text \<open>The two arrow functions passed to \<^verbatim>\<open>w.on('closed', ...)\<close>.\<close>

datatype closed_listener = MainClosed | AboutClosed

record browser_window =
  visible :: bool
  destroyed :: bool
  listeners :: "closed_listener list"

datatype effect =
    IpcOn string
  | NewBrowserWindow handle "(string \<times> optval) list"
  | SetMenuNull handle
  | OnClosed handle closed_listener
  | LoadURL handle string
  | WinClose handle
  | WinHide handle
  | WinShow handle
  | WinReload handle
  | WinToggleDevTools handle
  | UtilLog string
  | ConsoleLog string
  | OpenExternal string bool
  | SenderSend nat string

datatype error = TypeError string

text \<open>
  Names the source uses without defining them: the build-time global \<^verbatim>\<open>DEBUG\<close>, the
  module's \<^verbatim>\<open>__dirname\<close>, Node's \<^verbatim>\<open>Path.join\<close> and the two message names of
  \<^verbatim>\<open>IPCKeys\<close> (\<^verbatim>\<open>../common/Constants.js\<close>). They are parameters of the model, and so
  is the answer of the operating-system shell to \<^verbatim>\<open>openExternal\<close>: whether it could
  open the URL.
\<close>

record env =
  DEBUG :: bool
  dirname :: string
  Path_join :: "string \<Rightarrow> string \<Rightarrow> string"
  IPCKeys_RequestShowURL :: string
  IPCKeys_FinishShowURL :: string
  shell_openExternal :: "string \<Rightarrow> bool"

text \<open>
  The state: \<open>windows\<close> is \<^verbatim>\<open>this._windows\<close>, an association list in insertion order
  (the order \<^verbatim>\<open>Map.prototype.forEach\<close> visits). \<open>heap\<close>, \<open>next_handle\<close> and \<open>focused\<close>
  belong to the toolkit: its window objects, its allocation counter and the answer of
  \<^verbatim>\<open>BrowserWindow.getFocusedWindow()\<close>. \<open>effects\<close> is the log of external calls.
\<close>

record wm =
  genv :: env
  windows :: "(jsval \<times> handle) list"
  heap :: "handle \<Rightarrow> browser_window"
  next_handle :: handle
  focused :: "handle option"
  effects :: "effect list"

subsection \<open>The JavaScript Map\<close>

definition Map_get :: "(jsval \<times> handle) list \<Rightarrow> jsval \<Rightarrow> handle option" where
  "Map_get m k = map_of m k"

definition Map_set :: "jsval \<Rightarrow> handle \<Rightarrow> (jsval \<times> handle) list \<Rightarrow> (jsval \<times> handle) list" where
  "Map_set k v m = AList.update k v m"

definition Map_delete :: "jsval \<Rightarrow> (jsval \<times> handle) list \<Rightarrow> (jsval \<times> handle) list" where
  "Map_delete k m = AList.delete k m"

definition Map_forEach ::
  "(handle \<Rightarrow> jsval \<Rightarrow> wm \<Rightarrow> wm) \<Rightarrow> (jsval \<times> handle) list \<Rightarrow> wm \<Rightarrow> wm" where
  "Map_forEach f m s = fold (\<lambda>(key, val) s'. f val key s') m s"

subsection \<open>Calls into the toolkit\<close>

definition emit :: "effect \<Rightarrow> wm \<Rightarrow> wm" where
  "emit e s = s\<lparr>effects := effects s @ [e]\<rparr>"

text \<open>
  \<^verbatim>\<open>new BrowserWindow(options)\<close> allocates a window; it is shown at once (the toolkit's
  default for the option \<^verbatim>\<open>show\<close>, which the source never sets).
\<close>

definition new_BrowserWindow :: "(string \<times> optval) list \<Rightarrow> wm \<Rightarrow> handle \<times> wm" where
  "new_BrowserWindow opts s =
     (let w = next_handle s in
      (w, emit (NewBrowserWindow w opts)
            (s\<lparr>heap := (heap s)(w := \<lparr>visible = True, destroyed = False, listeners = []\<rparr>),
               next_handle := Suc w\<rparr>)))"

definition win_on_closed :: "handle \<Rightarrow> closed_listener \<Rightarrow> wm \<Rightarrow> wm" where
  "win_on_closed w l s =
     emit (OnClosed w l)
       (s\<lparr>heap := (heap s)(w := (heap s w)\<lparr>listeners := listeners (heap s w) @ [l]\<rparr>)\<rparr>)"

definition win_isVisible :: "handle \<Rightarrow> wm \<Rightarrow> bool" where
  "win_isVisible w s = visible (heap s w)"

definition win_hide :: "handle \<Rightarrow> wm \<Rightarrow> wm" where
  "win_hide w s = emit (WinHide w) (s\<lparr>heap := (heap s)(w := (heap s w)\<lparr>visible := False\<rparr>)\<rparr>)"

definition win_show :: "handle \<Rightarrow> wm \<Rightarrow> wm" where
  "win_show w s = emit (WinShow w) (s\<lparr>heap := (heap s)(w := (heap s w)\<lparr>visible := True\<rparr>)\<rparr>)"

text \<open>
  \<^verbatim>\<open>w.close()\<close> asks the toolkit to close the window. The toolkit raises the window's
  \<^verbatim>\<open>closed\<close> event later, from its own event queue (\<open>emit_closed\<close> below); the call
  itself only records the request.
\<close>

definition win_close :: "handle \<Rightarrow> wm \<Rightarrow> wm" where
  "win_close w s = emit (WinClose w) s"

subsection \<open>The methods of WindowManager\<close>

definition constructor :: "env \<Rightarrow> wm" where
  "constructor e =
     \<lparr>genv = e, windows = [],
      heap = (\<lambda>_. \<lparr>visible = False, destroyed = True, listeners = []\<rparr>),
      next_handle = 0, focused = None,
      effects = [IpcOn (IPCKeys_RequestShowURL e)]\<rparr>"

definition getWindow :: "jsval \<Rightarrow> wm \<Rightarrow> handle option \<times> wm" where
  "getWindow type s = (Map_get (windows s) type, s)"

definition close :: "jsval \<Rightarrow> wm \<Rightarrow> error + wm" where
  "close type s =
     (case Map_get (windows s) type of
        None \<Rightarrow> Inr s
      | Some w \<Rightarrow> Inr (win_close w s))"

definition showMain :: "wm \<Rightarrow> wm" where
  "showMain s =
     (if Map_get (windows s) WindowTypes_Main \<noteq> None then s
      else
        let (w, s1) = new_BrowserWindow
              [(''width'', N 600), (''height'', N 480), (''minWidth'', N 480),
               (''minHeight'', N 320), (''resizable'', B True)] s;
            s2 = win_on_closed w MainClosed s1;
            filePath = Path_join (genv s2) (dirname (genv s2)) ''window-main.html'';
            s3 = emit (LoadURL w (''file://'' @ filePath)) s2
        in s3\<lparr>windows := Map_set WindowTypes_Main w (windows s3)\<rparr>)"

definition showAbout :: "wm \<Rightarrow> wm" where
  "showAbout s =
     (if Map_get (windows s) WindowTypes_About \<noteq> None then s
      else
        let (w, s1) = new_BrowserWindow
              [(''width'', N 400), (''height'', N 256), (''resizable'', B False),
               (''alwaysOnTop'', B True)] s;
            s2 = emit (SetMenuNull w) s1;
            s3 = win_on_closed w AboutClosed s2;
            filePath = Path_join (genv s3) (dirname (genv s3)) ''window-about.html'';
            s4 = emit (LoadURL w (''file://'' @ filePath)) s3
        in s4\<lparr>windows := Map_set WindowTypes_About w (windows s4)\<rparr>)"

text \<open>
  The \<^verbatim>\<open>switch\<close> of \<^verbatim>\<open>show\<close>, case by case. The third case calls
  \<^verbatim>\<open>this._showGraphicEqualizer()\<close>; the class has no such method, so the call throws a
  \<^verbatim>\<open>TypeError\<close>.
\<close>

definition show_win :: "jsval \<Rightarrow> wm \<Rightarrow> error + wm" where
  "show_win type s =
     (if type = WindowTypes_Main then Inr (showMain s)
      else if type = WindowTypes_About then Inr (showAbout s)
      else if type = WindowTypes_GraphicEqualizer
        then Inl (TypeError ''this._showGraphicEqualizer is not a function'')
      else Inr s)"

definition toggle :: "jsval \<Rightarrow> wm \<Rightarrow> error + wm" where
  "toggle type s =
     (if type = WindowTypes_Main then Inr s
      else case Map_get (windows s) type of
             Some w \<Rightarrow> (if win_isVisible w s then Inr (win_hide w s) else Inr (win_show w s))
           | None \<Rightarrow> show_win type s)"

definition reload :: "wm \<Rightarrow> error + wm" where
  "reload s =
     (case focused s of
        Some w \<Rightarrow> Inr (emit (WinReload w) s)
      | None \<Rightarrow> Inr s)"

definition toggleDevTools :: "wm \<Rightarrow> error + wm" where
  "toggleDevTools s =
     (case focused s of
        Some w \<Rightarrow> Inr (emit (WinToggleDevTools w) s)
      | None \<Rightarrow> Inr s)"

text \<open>
  \<^verbatim>\<open>_onRequestShowURL(ev, url)\<close>; \<open>sender\<close> stands for \<^verbatim>\<open>ev.sender\<close>. The log keeps
  what the shell answered; the handler does not look at it.
\<close>

definition onRequestShowURL :: "nat \<Rightarrow> string \<Rightarrow> wm \<Rightarrow> error + wm" where
  "onRequestShowURL sender url s =
     Inr (emit (SenderSend sender (IPCKeys_FinishShowURL (genv s)))
           (emit (OpenExternal url (shell_openExternal (genv s) url))
             (emit (ConsoleLog url) s)))"

subsection \<open>The closed listeners and the toolkit's close notification\<close>

definition onMainClosed :: "wm \<Rightarrow> wm" where
  "onMainClosed s =
     (let s1 = (if DEBUG (genv s) then emit (UtilLog ''The main window was closed.'') s else s);
          s2 = Map_forEach
                 (\<lambda>val key s'. if key = WindowTypes_Main then s' else win_close val s')
                 (windows s1) s1
      in s2\<lparr>windows := Map_delete WindowTypes_Main (windows s2)\<rparr>)"

definition onAboutClosed :: "wm \<Rightarrow> wm" where
  "onAboutClosed s =
     (let s1 = (if DEBUG (genv s)
                then emit (UtilLog ''The about application window was closed.'') s else s)
      in s1\<lparr>windows := Map_delete WindowTypes_About (windows s1)\<rparr>)"

fun run_listener :: "closed_listener \<Rightarrow> wm \<Rightarrow> wm" where
  "run_listener MainClosed s = onMainClosed s"
| "run_listener AboutClosed s = onAboutClosed s"

text \<open>
  The toolkit closing window \<open>w\<close>: the window is destroyed (and loses the focus if it
  had it), then its \<^verbatim>\<open>closed\<close> listeners run in the order they were registered.
\<close>

definition destroy :: "handle \<Rightarrow> wm \<Rightarrow> wm" where
  "destroy w s =
     s\<lparr>heap := (heap s)(w := (heap s w)\<lparr>visible := False, destroyed := True\<rparr>),
       focused := (if focused s = Some w then None else focused s)\<rparr>"

definition emit_closed :: "handle \<Rightarrow> wm \<Rightarrow> wm" where
  "emit_closed w s = fold run_listener (listeners (heap s w)) (destroy w s)"

definition live :: "handle \<Rightarrow> wm \<Rightarrow> bool" where
  "live w s \<longleftrightarrow> w < next_handle s \<and> \<not> destroyed (heap s w)"

subsection \<open>Sequences of calls and events\<close>

text \<open>
  What can happen to a manager: a call of one of its public methods, the inbound IPC
  message, and two events of the toolkit (a live window is closed, a live window takes
  the focus). A sequence stops at the first exception.
\<close>

datatype op =
    Show jsval
  | Toggle jsval
  | Close jsval
  | GetWindow jsval
  | Reload
  | ToggleDevTools
  | RequestShowURL nat string
  | Closed handle
  | Focus handle

fun step :: "op \<Rightarrow> wm \<Rightarrow> error + wm" where
  "step (Show t) s = show_win t s"
| "step (Toggle t) s = toggle t s"
| "step (Close t) s = close t s"
| "step (GetWindow t) s = Inr (snd (getWindow t s))"
| "step Reload s = reload s"
| "step ToggleDevTools s = toggleDevTools s"
| "step (RequestShowURL sender url) s = onRequestShowURL sender url s"
| "step (Closed w) s = (if live w s then Inr (emit_closed w s) else Inr s)"
| "step (Focus w) s = (if live w s then Inr (s\<lparr>focused := Some w\<rparr>) else Inr s)"

fun run :: "op list \<Rightarrow> wm \<Rightarrow> error + wm" where
  "run [] s = Inr s"
| "run (x # xs) s = (case step x s of Inl e \<Rightarrow> Inl e | Inr s' \<Rightarrow> run xs s')"

subsection \<open>Well-formed states\<close>

text \<open>
  What holds of every state the manager can reach: the registry has one entry per key
  and one key per window; a registered window is live, is registered as \<^verbatim>\<open>'main'\<close> or
  \<^verbatim>\<open>'about'\<close>, and carries exactly the listener that \<open>showMain\<close> or \<open>showAbout\<close> gave it.
\<close>

definition listener_of :: "jsval \<Rightarrow> closed_listener option" where
  "listener_of k =
     (if k = WindowTypes_Main then Some MainClosed
      else if k = WindowTypes_About then Some AboutClosed
      else None)"

definition well_formed :: "wm \<Rightarrow> bool" where
  "well_formed s \<longleftrightarrow>
     distinct (map fst (windows s)) \<and> distinct (map snd (windows s)) \<and>
     list_all (\<lambda>(k, w). live w s \<and> (case listener_of k of
                                        None \<Rightarrow> False
                                      | Some l \<Rightarrow> listeners (heap s w) = [l]))
       (windows s)"

text \<open>The windows other than Main that the registry holds, in registry order.\<close>

definition others :: "wm \<Rightarrow> handle list" where
  "others s = map snd (filter (\<lambda>(k, w). k \<noteq> WindowTypes_Main) (windows s))"

text \<open>How many windows have been created so far.\<close>

definition creations :: "wm \<Rightarrow> nat" where
  "creations s = length (filter (\<lambda>e. case e of NewBrowserWindow _ _ \<Rightarrow> True | _ \<Rightarrow> False)
                           (effects s))"

section \<open>The state binding of the explorer\<close>

text \<open>
  The second fragment connects a component to a store. The application state is any
  record with at least the fields \<open>folders\<close> and \<open>currentFolder\<close>; their types
  (\<^verbatim>\<open>../RendererTypes\<close>) are type parameters. The action creators of
  \<^verbatim>\<open>../actions/index\<close> and the store's \<^verbatim>\<open>dispatch\<close> are parameters; a callback is a
  function on the store's world \<open>'w\<close>.
\<close>

record ('fs, 'cf) StateByProps =
  folders :: 'fs
  currentFolder :: 'cf

record ('p, 'f, 'w) DispatchByProps =
  enumSubFolders :: "'p \<Rightarrow> 'w \<Rightarrow> 'w"
  enumItems :: "'f \<Rightarrow> 'w \<Rightarrow> 'w"

definition mapStateToProps :: "('fs, 'cf, 'z) StateByProps_scheme \<Rightarrow> ('fs, 'cf) StateByProps" where
  "mapStateToProps state = \<lparr>folders = folders state, currentFolder = currentFolder state\<rparr>"

definition mapDispatchToProps ::
  "('a \<Rightarrow> 'w \<Rightarrow> 'w) \<Rightarrow> ('p \<Rightarrow> 'a) \<Rightarrow> ('f \<Rightarrow> 'a) \<Rightarrow> ('p, 'f, 'w) DispatchByProps" where
  "mapDispatchToProps dispatch action_enumSubFolders action_enumItems =
     \<lparr>enumSubFolders = (\<lambda>folderPath. dispatch (action_enumSubFolders folderPath)),
      enumItems = (\<lambda>folder. dispatch (action_enumItems folder))\<rparr>"

text \<open>A store that does nothing but record the actions it is given, in order.\<close>

definition recording_dispatch :: "'a \<Rightarrow> 'a list \<Rightarrow> 'a list" where
  "recording_dispatch a log = log @ [a]"

text \<open>A concrete environment, for evaluating the model on examples.\<close>

definition env0 :: env where
  "env0 = \<lparr>DEBUG = False, dirname = ''/app'',
           Path_join = (\<lambda>a b. a @ ''/'' @ b),
           IPCKeys_RequestShowURL = ''RequestShowURL'',
           IPCKeys_FinishShowURL = ''FinishShowURL'',
           shell_openExternal = (\<lambda>url. True)\<rparr>"

section \<open>Properties of the window manager\<close>

subsection \<open>The window types and the Map\<close>

lemma WindowTypes_values:
  "WindowTypes_Main = Str ''main''"
  "WindowTypes_About = Str ''about''"
  "WindowTypes_GraphicEqualizer = Undefined"
  by (simp_all add: WindowTypes_Main_def WindowTypes_About_def
      WindowTypes_GraphicEqualizer_def js_prop_def WindowTypes_def)

lemma Map_get_set: "Map_get (Map_set k v m) k' = (if k' = k then Some v else Map_get m k')"
  by (simp add: Map_get_def Map_set_def update_conv')

lemma Map_get_delete: "Map_get (Map_delete k m) k' = (if k' = k then None else Map_get m k')"
  by (simp add: Map_get_def Map_delete_def delete_conv')

lemma Map_set_absent: "Map_get m k = None \<Longrightarrow> Map_set k v m = m @ [(k, v)]"
  unfolding Map_get_def Map_set_def
  by (induction m) (auto split: if_splits)

lemma Map_get_Some_mem: "Map_get m k = Some v \<Longrightarrow> (k, v) \<in> set m"
  by (simp add: Map_get_def map_of_SomeD)

lemma Map_get_None_notin: "Map_get m k = None \<Longrightarrow> k \<notin> fst ` set m"
  by (simp add: Map_get_def map_of_eq_None_iff)

subsection \<open>The closed listeners, written out\<close>

lemma forEach_close:
  "Map_forEach (\<lambda>val key s'. if key = WindowTypes_Main then s' else win_close val s') m s
   = s\<lparr>effects := effects s @ map WinClose (map snd (filter (\<lambda>(k, w). k \<noteq> WindowTypes_Main) m))\<rparr>"
  unfolding Map_forEach_def
proof (induction m arbitrary: s)
  case Nil
  show ?case by simp
next
  case (Cons p m)
  show ?case
    by (cases p) (simp add: Cons.IH win_close_def emit_def)
qed

lemma onMainClosed_eq:
  "onMainClosed s =
     s\<lparr>effects := effects s
          @ (if DEBUG (genv s) then [UtilLog ''The main window was closed.''] else [])
          @ map WinClose (others s),
       windows := Map_delete WindowTypes_Main (windows s)\<rparr>"
  by (simp add: onMainClosed_def forEach_close others_def emit_def Let_def)

lemma onAboutClosed_eq:
  "onAboutClosed s =
     s\<lparr>effects := effects s
          @ (if DEBUG (genv s) then [UtilLog ''The about application window was closed.''] else []),
       windows := Map_delete WindowTypes_About (windows s)\<rparr>"
  by (simp add: onAboutClosed_def emit_def Let_def)

subsection \<open>Every call and every event keeps a state well formed\<close>

lemma well_formed_iff:
  "well_formed s \<longleftrightarrow>
     distinct (map fst (windows s)) \<and> distinct (map snd (windows s)) \<and>
     (\<forall>(k, w) \<in> set (windows s). w < next_handle s \<and> \<not> destroyed (heap s w)
        \<and> (\<exists>l. listener_of k = Some l \<and> listeners (heap s w) = [l]))"
  by (auto simp: well_formed_def live_def list_all_iff split: option.splits)

lemma well_formed_constructor: "well_formed (constructor e)"
  by (simp add: well_formed_def constructor_def)

lemma well_formed_cong:
  assumes ok: "well_formed s"
    and ws: "windows s' = windows s"
    and nh: "next_handle s' = next_handle s"
    and hp: "\<And>w. w \<in> snd ` set (windows s) \<Longrightarrow>
          destroyed (heap s' w) = destroyed (heap s w) \<and> listeners (heap s' w) = listeners (heap s w)"
  shows "well_formed s'"
proof -
  have "w < next_handle s' \<and> \<not> destroyed (heap s' w)
        \<and> (\<exists>l. listener_of k = Some l \<and> listeners (heap s' w) = [l])"
    if kw: "(k, w) \<in> set (windows s)" for k w
  proof -
    have "w \<in> snd ` set (windows s)"
      using kw by (simp add: image_iff) (metis snd_conv)
    then have same: "destroyed (heap s' w) = destroyed (heap s w)"
      "listeners (heap s' w) = listeners (heap s w)"
      using hp by simp_all
    have "w < next_handle s \<and> \<not> destroyed (heap s w)
        \<and> (\<exists>l. listener_of k = Some l \<and> listeners (heap s w) = [l])"
      using ok kw unfolding well_formed_iff by blast
    then show ?thesis
      by (simp add: same nh)
  qed
  then show ?thesis
    using ok unfolding well_formed_iff ws by blast
qed

lemma well_formed_delete:
  assumes "well_formed s"
  shows "well_formed (s\<lparr>windows := Map_delete k (windows s)\<rparr>)"
proof -
  have sub: "set (Map_delete k (windows s)) \<subseteq> set (windows s)"
    by (auto simp: Map_delete_def AList.delete_eq)
  have d1: "distinct (map fst (Map_delete k (windows s)))"
    using assms by (simp add: well_formed_iff Map_delete_def AList.delete_eq distinct_map_filter)
  have d2: "distinct (map snd (Map_delete k (windows s)))"
    using assms by (simp add: well_formed_iff Map_delete_def AList.delete_eq distinct_map_filter)
  have a: "\<forall>(k, w) \<in> set (windows s). w < next_handle s \<and> \<not> destroyed (heap s w)
        \<and> (\<exists>l. listener_of k = Some l \<and> listeners (heap s w) = [l])"
    using assms by (simp add: well_formed_iff)
  have "\<forall>(k, w) \<in> set (Map_delete k (windows s)). w < next_handle s \<and> \<not> destroyed (heap s w)
        \<and> (\<exists>l. listener_of k = Some l \<and> listeners (heap s w) = [l])"
    using a sub by blast
  then show ?thesis
    using d1 d2 by (simp add: well_formed_iff)
qed

lemma well_formed_emit: "well_formed s \<Longrightarrow> well_formed (emit e s)"
  by (erule well_formed_cong) (simp_all add: emit_def)

lemma well_formed_effects: "well_formed s \<Longrightarrow> well_formed (s\<lparr>effects := es\<rparr>)"
  by (erule well_formed_cong) simp_all

lemma well_formed_onMainClosed: "well_formed s \<Longrightarrow> well_formed (onMainClosed s)"
  unfolding onMainClosed_eq
  using well_formed_delete [OF well_formed_effects, of s] by simp

lemma well_formed_onAboutClosed: "well_formed s \<Longrightarrow> well_formed (onAboutClosed s)"
  unfolding onAboutClosed_eq
  using well_formed_delete [OF well_formed_effects, of s] by simp

lemma well_formed_listeners: "well_formed s \<Longrightarrow> well_formed (fold run_listener ls s)"
proof (induction ls arbitrary: s)
  case Nil
  then show ?case by simp
next
  case (Cons l ls)
  then show ?case
    by (cases l) (simp_all add: well_formed_onMainClosed well_formed_onAboutClosed)
qed

lemma well_formedI:
  assumes "distinct (map fst (windows s))" "distinct (map snd (windows s))"
    and "\<And>k w. (k, w) \<in> set (windows s) \<Longrightarrow>
           w < next_handle s \<and> \<not> destroyed (heap s w)
           \<and> (\<exists>l. listener_of k = Some l \<and> listeners (heap s w) = [l])"
  shows "well_formed s"
  unfolding well_formed_iff using assms by blast

lemma well_formedD:
  assumes "well_formed s" "(k, w) \<in> set (windows s)"
  shows "w < next_handle s" "\<not> destroyed (heap s w)"
    "\<exists>l. listener_of k = Some l \<and> listeners (heap s w) = [l]"
  using assms unfolding well_formed_iff by blast+

lemma well_formed_add:
  assumes ok: "well_formed s"
    and absent: "Map_get (windows s) k = None"
    and l: "listener_of k = Some l"
  shows "well_formed (s\<lparr>heap := (heap s)(next_handle s :=
                           \<lparr>visible = v, destroyed = False, listeners = [l]\<rparr>),
                        next_handle := Suc (next_handle s),
                        effects := es,
                        windows := windows s @ [(k, next_handle s)]\<rparr>)"
    (is "well_formed ?s'")
proof (rule well_formedI)
  have fresh: "next_handle s \<notin> snd ` set (windows s)"
  proof
    assume "next_handle s \<in> snd ` set (windows s)"
    then obtain k' where "(k', next_handle s) \<in> set (windows s)" by force
    from well_formedD(1) [OF ok this] show False by simp
  qed
  show "distinct (map fst (windows ?s'))"
    using ok Map_get_None_notin [OF absent] by (simp add: well_formed_iff)
  show "distinct (map snd (windows ?s'))"
    using ok fresh by (simp add: well_formed_iff)
  fix k' w
  assume kw: "(k', w) \<in> set (windows ?s')"
  show "w < next_handle ?s' \<and> \<not> destroyed (heap ?s' w)
        \<and> (\<exists>l. listener_of k' = Some l \<and> listeners (heap ?s' w) = [l])"
  proof (cases "(k', w) \<in> set (windows s)")
    case True
    from well_formedD [OF ok True] have "w < next_handle s" "\<not> destroyed (heap s w)"
      "\<exists>l. listener_of k' = Some l \<and> listeners (heap s w) = [l]" by blast+
    then show ?thesis by simp
  next
    case False
    with kw have "k' = k" "w = next_handle s" by simp_all
    then show ?thesis by (simp add: l)
  qed
qed

lemma showMain_eq:
  "Map_get (windows s) WindowTypes_Main = None \<Longrightarrow>
   showMain s =
     s\<lparr>heap := (heap s)(next_handle s :=
                  \<lparr>visible = True, destroyed = False, listeners = [MainClosed]\<rparr>),
       next_handle := Suc (next_handle s),
       effects := effects s @
         [NewBrowserWindow (next_handle s)
            [(''width'', N 600), (''height'', N 480), (''minWidth'', N 480),
             (''minHeight'', N 320), (''resizable'', B True)],
          OnClosed (next_handle s) MainClosed,
          LoadURL (next_handle s)
            (''file://'' @ Path_join (genv s) (dirname (genv s)) ''window-main.html'')],
       windows := windows s @ [(WindowTypes_Main, next_handle s)]\<rparr>"
  by (simp add: showMain_def new_BrowserWindow_def win_on_closed_def emit_def Let_def
      Map_set_absent)

lemma showAbout_eq:
  "Map_get (windows s) WindowTypes_About = None \<Longrightarrow>
   showAbout s =
     s\<lparr>heap := (heap s)(next_handle s :=
                  \<lparr>visible = True, destroyed = False, listeners = [AboutClosed]\<rparr>),
       next_handle := Suc (next_handle s),
       effects := effects s @
         [NewBrowserWindow (next_handle s)
            [(''width'', N 400), (''height'', N 256), (''resizable'', B False),
             (''alwaysOnTop'', B True)],
          SetMenuNull (next_handle s),
          OnClosed (next_handle s) AboutClosed,
          LoadURL (next_handle s)
            (''file://'' @ Path_join (genv s) (dirname (genv s)) ''window-about.html'')],
       windows := windows s @ [(WindowTypes_About, next_handle s)]\<rparr>"
  by (simp add: showAbout_def new_BrowserWindow_def win_on_closed_def emit_def Let_def
      Map_set_absent)

lemma well_formed_showMain: "well_formed s \<Longrightarrow> well_formed (showMain s)"
proof (cases "Map_get (windows s) WindowTypes_Main")
  case None
  assume "well_formed s"
  from well_formed_add [OF this None, of MainClosed] show ?thesis
    by (simp add: showMain_eq [OF None] listener_of_def)
next
  case (Some w)
  assume "well_formed s"
  then show ?thesis by (simp add: showMain_def Some)
qed

lemma well_formed_showAbout: "well_formed s \<Longrightarrow> well_formed (showAbout s)"
proof (cases "Map_get (windows s) WindowTypes_About")
  case None
  assume "well_formed s"
  from well_formed_add [OF this None, of AboutClosed] show ?thesis
    by (simp add: showAbout_eq [OF None] listener_of_def WindowTypes_values)
next
  case (Some w)
  assume "well_formed s"
  then show ?thesis by (simp add: showAbout_def Some)
qed

lemma well_formed_show: "well_formed s \<Longrightarrow> show_win t s = Inr s' \<Longrightarrow> well_formed s'"
  by (auto simp: show_win_def well_formed_showMain well_formed_showAbout split: if_splits)

lemma well_formed_hide: "well_formed s \<Longrightarrow> well_formed (win_hide w s)"
  by (erule well_formed_cong) (simp_all add: win_hide_def emit_def)

lemma well_formed_win_show: "well_formed s \<Longrightarrow> well_formed (win_show w s)"
  by (erule well_formed_cong) (simp_all add: win_show_def emit_def)

lemma well_formed_toggle: "well_formed s \<Longrightarrow> toggle t s = Inr s' \<Longrightarrow> well_formed s'"
  by (auto simp: toggle_def well_formed_hide well_formed_win_show
      split: if_splits option.splits dest: well_formed_show)

lemma well_formed_close: "well_formed s \<Longrightarrow> close t s = Inr s' \<Longrightarrow> well_formed s'"
  by (auto simp: close_def win_close_def well_formed_emit split: option.splits)

lemma distinct_snd_key:
  assumes "distinct (map snd ws)" "(k, w) \<in> set ws" "(k', w) \<in> set ws"
  shows "k = k'"
proof -
  from assms(1) have "inj_on snd (set ws)" by (simp add: distinct_map)
  from inj_onD [OF this _ assms(2) assms(3)] show ?thesis by simp
qed

lemma Map_delete_mem: "(k', w') \<in> set (Map_delete k m) \<longleftrightarrow> (k', w') \<in> set m \<and> k' \<noteq> k"
  by (auto simp: Map_delete_def AList.delete_eq)

lemma Map_delete_filter: "Map_delete k m = filter (\<lambda>(k', w). k' \<noteq> k) m"
  unfolding Map_delete_def AList.delete_eq
  by (rule filter_cong) auto

lemma well_formed_destroy_delete:
  assumes ok: "well_formed s" and kw: "(k, w) \<in> set (windows s)"
  shows "well_formed ((destroy w s)\<lparr>effects := es, windows := Map_delete k (windows s)\<rparr>)"
    (is "well_formed ?s'")
proof (rule well_formedI)
  show "distinct (map fst (windows ?s'))"
    using ok by (simp add: well_formed_iff Map_delete_def AList.delete_eq distinct_map_filter)
  show "distinct (map snd (windows ?s'))"
    using ok by (simp add: well_formed_iff Map_delete_def AList.delete_eq distinct_map_filter)
  fix k' w'
  assume "(k', w') \<in> set (windows ?s')"
  then have mem: "(k', w') \<in> set (windows s)" and ne: "k' \<noteq> k"
    by (simp_all add: Map_delete_mem)
  have d: "distinct (map snd (windows s))"
    using ok by (simp add: well_formed_iff)
  have "w' \<noteq> w"
    using distinct_snd_key [OF d mem] kw ne by blast
  then have same: "heap ?s' w' = heap s w'" "next_handle ?s' = next_handle s"
    by (simp_all add: destroy_def)
  from well_formedD [OF ok mem] show "w' < next_handle ?s' \<and> \<not> destroyed (heap ?s' w')
        \<and> (\<exists>l. listener_of k' = Some l \<and> listeners (heap ?s' w') = [l])"
    unfolding same by blast
qed

lemma well_formed_destroy_unregistered:
  assumes ok: "well_formed s" and un: "w \<notin> snd ` set (windows s)"
  shows "well_formed (destroy w s)"
proof (rule well_formed_cong [OF ok])
  show "windows (destroy w s) = windows s" by (simp add: destroy_def)
  show "next_handle (destroy w s) = next_handle s" by (simp add: destroy_def)
  fix w'
  assume "w' \<in> snd ` set (windows s)"
  with un have "w' \<noteq> w" by blast
  then show "destroyed (heap (destroy w s) w') = destroyed (heap s w')
       \<and> listeners (heap (destroy w s) w') = listeners (heap s w')"
    by (simp add: destroy_def)
qed

lemma listeners_destroy: "listeners (heap (destroy w s) w') = listeners (heap s w')"
  by (simp add: destroy_def)

lemma emit_closed_registered:
  assumes ok: "well_formed s" and kw: "(k, w) \<in> set (windows s)"
  shows "k = WindowTypes_Main \<and> emit_closed w s = onMainClosed (destroy w s)
       \<or> k = WindowTypes_About \<and> emit_closed w s = onAboutClosed (destroy w s)"
proof -
  from well_formedD(3) [OF ok kw] obtain l
    where l: "listener_of k = Some l" "listeners (heap s w) = [l]" by blast
  show ?thesis
  proof (cases "k = WindowTypes_Main")
    case True
    with l show ?thesis by (simp add: listener_of_def emit_closed_def)
  next
    case False
    with l have "k = WindowTypes_About" "l = AboutClosed"
      by (simp_all add: listener_of_def split: if_splits)
    with l show ?thesis by (simp add: emit_closed_def)
  qed
qed

lemma well_formed_emit_closed:
  assumes ok: "well_formed s"
  shows "well_formed (emit_closed w s)"
proof (cases "w \<in> snd ` set (windows s)")
  case True
  then obtain k where kw: "(k, w) \<in> set (windows s)" by force
  have windows_destroy: "windows (destroy w s) = windows s"
    by (simp add: destroy_def)
  from emit_closed_registered [OF ok kw] show ?thesis
  proof
    assume a: "k = WindowTypes_Main \<and> emit_closed w s = onMainClosed (destroy w s)"
    with kw have kw': "(WindowTypes_Main, w) \<in> set (windows s)" by simp
    from well_formed_destroy_delete [OF ok kw'] show ?thesis
      by (simp add: a onMainClosed_eq windows_destroy)
  next
    assume a: "k = WindowTypes_About \<and> emit_closed w s = onAboutClosed (destroy w s)"
    with kw have kw': "(WindowTypes_About, w) \<in> set (windows s)" by simp
    from well_formed_destroy_delete [OF ok kw'] show ?thesis
      by (simp add: a onAboutClosed_eq windows_destroy)
  qed
next
  case False
  from well_formed_listeners [OF well_formed_destroy_unregistered [OF ok False]]
  show ?thesis by (simp add: emit_closed_def listeners_destroy)
qed

lemma well_formed_focus: "well_formed s \<Longrightarrow> well_formed (s\<lparr>focused := f\<rparr>)"
  by (erule well_formed_cong) simp_all

lemma well_formed_step: "well_formed s \<Longrightarrow> step x s = Inr s' \<Longrightarrow> well_formed s'"
proof (cases x)
  case (Show t)
  assume "well_formed s" "step x s = Inr s'"
  with Show show ?thesis by (simp add: well_formed_show)
next
  case (Toggle t)
  assume "well_formed s" "step x s = Inr s'"
  with Toggle show ?thesis by (simp add: well_formed_toggle)
next
  case (Close t)
  assume "well_formed s" "step x s = Inr s'"
  with Close show ?thesis by (simp add: well_formed_close)
next
  case (GetWindow t)
  assume "well_formed s" "step x s = Inr s'"
  with GetWindow show ?thesis by (auto simp: getWindow_def)
next
  case Reload
  assume "well_formed s" "step x s = Inr s'"
  with Reload show ?thesis by (auto simp: reload_def well_formed_emit split: option.splits)
next
  case ToggleDevTools
  assume "well_formed s" "step x s = Inr s'"
  with ToggleDevTools show ?thesis
    by (auto simp: toggleDevTools_def well_formed_emit split: option.splits)
next
  case (RequestShowURL sender url)
  assume "well_formed s" "step x s = Inr s'"
  with RequestShowURL show ?thesis
    by (auto simp: onRequestShowURL_def well_formed_emit)
next
  case (Closed w)
  assume "well_formed s" "step x s = Inr s'"
  with Closed show ?thesis by (auto simp: well_formed_emit_closed split: if_splits)
next
  case (Focus w)
  assume "well_formed s" "step x s = Inr s'"
  with Focus show ?thesis by (auto simp: well_formed_focus split: if_splits)
qed

lemma well_formed_run: "well_formed s \<Longrightarrow> run xs s = Inr s' \<Longrightarrow> well_formed s'"
proof (induction xs arbitrary: s)
  case Nil
  then show ?case by simp
next
  case (Cons x xs)
  then show ?case
    by (auto split: sum.splits dest: well_formed_step)
qed

subsection \<open>Without show, an Absent type stays Absent\<close>









lemma registered_live: "well_formed s \<Longrightarrow> Map_get (windows s) t = Some w \<Longrightarrow> live w s"
  using well_formedD(1,2) [OF _ Map_get_Some_mem] by (simp add: live_def)

lemma closed_makes_absent:
  assumes ok: "well_formed s" and reg: "Map_get (windows s) t = Some w"
  shows "step (Closed w) s = Inr (emit_closed w s)"
    and "Map_get (windows (emit_closed w s)) t = None"
proof -
  show "step (Closed w) s = Inr (emit_closed w s)"
    using registered_live [OF ok reg] by simp
  from emit_closed_registered [OF ok Map_get_Some_mem [OF reg]]
  show "Map_get (windows (emit_closed w s)) t = None"
    by (auto simp: onMainClosed_eq onAboutClosed_eq Map_get_delete)
qed


subsection \<open>Closing what the registry holds\<close>

lemma others_mem:
  "k \<noteq> WindowTypes_Main \<Longrightarrow> Map_get (windows s) k = Some w' \<Longrightarrow> w' \<in> set (others s)"
  unfolding others_def using Map_get_Some_mem [of "windows s" k w'] by force

lemma closed_main_state:
  assumes ok: "well_formed s" and reg: "Map_get (windows s) WindowTypes_Main = Some w"
  shows "emit_closed w s = onMainClosed (destroy w s)"
  using emit_closed_registered [OF ok Map_get_Some_mem [OF reg]]
  by (auto simp: WindowTypes_values)

lemma windows_emit_closed:
  assumes ok: "well_formed s" and kw: "(k, w) \<in> set (windows s)"
  shows "windows (emit_closed w s) = Map_delete k (windows s)"
  using emit_closed_registered [OF ok kw]
  by (auto simp: onMainClosed_eq onAboutClosed_eq destroy_def)

lemma Map_delete_head:
  "k \<notin> fst ` set ws \<Longrightarrow> Map_delete k ((k, w) # ws) = ws"
  by (induction ws) (auto simp: Map_delete_def AList.delete_eq)

lemma close_all_registered:
  "well_formed s \<Longrightarrow> windows s = ws
   \<Longrightarrow> \<exists>s'. run (map Closed (map snd ws)) s = Inr s' \<and> windows s' = []"
proof (induction ws arbitrary: s)
  case Nil
  then show ?case by simp
next
  case (Cons p ws)
  obtain k w where p: "p = (k, w)" by (cases p)
  have mem: "(k, w) \<in> set (windows s)"
    using Cons.prems(2) p by simp
  have reg: "live w s"
    using well_formedD(1,2) [OF Cons.prems(1) mem] by (simp add: live_def)
  have fresh: "k \<notin> fst ` set ws"
    using Cons.prems unfolding well_formed_iff p by simp
  have w1: "windows (emit_closed w s) = ws"
    using windows_emit_closed [OF Cons.prems(1) mem] Cons.prems(2) p
    by (simp add: Map_delete_head [OF fresh])
  from Cons.IH [OF well_formed_emit_closed [OF Cons.prems(1)] w1]
  show ?case using reg p by simp
qed

subsection \<open>A window is created once\<close>

lemma showMain_registers: "Map_get (windows (showMain s)) WindowTypes_Main \<noteq> None"
  by (simp add: showMain_def new_BrowserWindow_def win_on_closed_def emit_def Map_get_set Let_def)

lemma showAbout_registers: "Map_get (windows (showAbout s)) WindowTypes_About \<noteq> None"
  by (simp add: showAbout_def new_BrowserWindow_def win_on_closed_def emit_def Map_get_set Let_def)

lemma showMain_present: "Map_get (windows s) WindowTypes_Main \<noteq> None \<Longrightarrow> showMain s = s"
  by (simp add: showMain_def)

lemma showAbout_present: "Map_get (windows s) WindowTypes_About \<noteq> None \<Longrightarrow> showAbout s = s"
  by (simp add: showAbout_def)

lemma creations_showMain:
  "Map_get (windows s) WindowTypes_Main = None \<Longrightarrow> creations (showMain s) = Suc (creations s)"
  by (simp add: showMain_eq creations_def)

lemma creations_showAbout:
  "Map_get (windows s) WindowTypes_About = None \<Longrightarrow> creations (showAbout s) = Suc (creations s)"
  by (simp add: showAbout_eq creations_def)

text \<open>
  On a type that \<^verbatim>\<open>show\<close>'s \<^verbatim>\<open>switch\<close> has no case for, the call falls to
  \<^verbatim>\<open>default\<close> and changes nothing.
\<close>

lemma show_unrecognized_noop:
  "type \<noteq> WindowTypes_Main \<Longrightarrow> type \<noteq> WindowTypes_About \<Longrightarrow> type \<noteq> WindowTypes_GraphicEqualizer
   \<Longrightarrow> show_win type s = Inr s"
  by (simp add: show_win_def)

text \<open>Every state reached from a fresh manager is well formed.\<close>

lemma well_formed_reachable: "run xs (constructor e) = Inr s \<Longrightarrow> well_formed s"
  by (rule well_formed_run [OF well_formed_constructor])

text \<open>The definitions to unfold when a concrete state is evaluated.\<close>

lemmas eval_defs = showMain_def showAbout_def constructor_def new_BrowserWindow_def
      win_on_closed_def emit_def Let_def Map_get_def Map_set_def Map_delete_def
      WindowTypes_values env0_def emit_closed_def destroy_def onMainClosed_def onAboutClosed_def
      Map_forEach_def win_close_def getWindow_def AList.delete_eq live_def show_win_def

subsection \<open>The claims about the window manager\<close>

text \<open>
  C1. After \<^verbatim>\<open>show(Main)\<close> has created the main window (a well-formed state whose
  registry holds a window \<open>w\<close> for Main), the delivery of that window's close
  notification removes Main's own entry from the registry and requests the close of
  every other window type whose state is Created: the listener calls \<^verbatim>\<open>close()\<close> on
  exactly those windows, in registry order. It does not touch their entries: such a
  type is still Created after the notification, and becomes Absent when the close
  notification of its own window is delivered. Once the notifications of the windows
  whose close was requested have been delivered, the registry is empty.

  The statement that the other types are Absent as soon as Main's notification has
  been delivered does not hold: the listener deletes the key of Main only, and the
  entry of About is deleted by the listener of the About window. With both windows
  shown, About is still registered after Main's notification (the third theorem
  below).
\<close>

theorem main_closed_requests_close:
  assumes ok: "well_formed s" and reg: "fst (getWindow WindowTypes_Main s) = Some w"
  shows "\<exists>s'. step (Closed w) s = Inr s'
      \<and> fst (getWindow WindowTypes_Main s') = None
      \<and> effects s' = effects s
           @ (if DEBUG (genv s) then [UtilLog ''The main window was closed.''] else [])
           @ map WinClose (others s)
      \<and> (\<forall>k w'. k \<noteq> WindowTypes_Main \<and> fst (getWindow k s) = Some w' \<longrightarrow>
            w' \<in> set (others s)
            \<and> fst (getWindow k s') = Some w'
            \<and> (\<exists>s''. step (Closed w') s' = Inr s'' \<and> fst (getWindow k s'') = None))
      \<and> (\<exists>s''. run (map Closed (others s)) s' = Inr s'' \<and> windows s'' = [])"
proof -
  let ?s' = "emit_closed w s"
  from reg have reg0: "Map_get (windows s) WindowTypes_Main = Some w"
    by (simp add: getWindow_def)
  have st: "step (Closed w) s = Inr ?s'"
    by (rule closed_makes_absent(1) [OF ok reg0])
  have eq: "?s' = onMainClosed (destroy w s)"
    by (rule closed_main_state [OF ok reg0])
  have ok': "well_formed ?s'"
    by (rule well_formed_emit_closed [OF ok])
  have main: "fst (getWindow WindowTypes_Main ?s') = None"
    using closed_makes_absent(2) [OF ok reg0] by (simp add: getWindow_def)
  have eff: "effects ?s' = effects s
           @ (if DEBUG (genv s) then [UtilLog ''The main window was closed.''] else [])
           @ map WinClose (others s)"
    unfolding eq onMainClosed_eq by (simp add: destroy_def others_def)
  have other: "w' \<in> set (others s)
            \<and> fst (getWindow k ?s') = Some w'
            \<and> (\<exists>s''. step (Closed w') ?s' = Inr s'' \<and> fst (getWindow k s'') = None)"
    if k: "k \<noteq> WindowTypes_Main" and kw: "fst (getWindow k s) = Some w'" for k w'
  proof -
    from kw have reg': "Map_get (windows s) k = Some w'" by (simp add: getWindow_def)
    have still: "Map_get (windows ?s') k = Some w'"
      unfolding eq onMainClosed_eq using k reg' by (simp add: Map_get_delete destroy_def)
    from closed_makes_absent [OF ok' still] others_mem [OF k reg'] still
    show ?thesis by (simp add: getWindow_def)
  qed
  have ws: "map snd (windows ?s') = others s"
    unfolding eq onMainClosed_eq
    by (simp add: others_def destroy_def Map_delete_filter)
  from close_all_registered [OF ok' refl]
  have all: "\<exists>s''. run (map Closed (others s)) ?s' = Inr s'' \<and> windows s'' = []"
    by (simp add: ws)
  from st main eff other all show ?thesis by blast
qed

theorem main_closed_requests_close_witness:
  "well_formed (showAbout (showMain (constructor env0)))
   \<and> fst (getWindow WindowTypes_Main (showAbout (showMain (constructor env0)))) = Some 0
   \<and> WindowTypes_About \<noteq> WindowTypes_Main
   \<and> fst (getWindow WindowTypes_About (showAbout (showMain (constructor env0)))) = Some 1
   \<and> (\<exists>s'. step (Closed 0) (showAbout (showMain (constructor env0))) = Inr s'
         \<and> fst (getWindow WindowTypes_Main s') = None
         \<and> fst (getWindow WindowTypes_About s') = Some 1
         \<and> (\<exists>s''. step (Closed 1) s' = Inr s'' \<and> fst (getWindow WindowTypes_About s'') = None))"
proof -
  let ?s = "showAbout (showMain (constructor env0))"
  have ok: "well_formed ?s"
    by (simp add: well_formed_def listener_of_def eval_defs)
  have reg: "fst (getWindow WindowTypes_Main ?s) = Some 0"
    by (simp add: eval_defs)
  have ne: "WindowTypes_About \<noteq> WindowTypes_Main"
    by (simp add: WindowTypes_values)
  have ab: "fst (getWindow WindowTypes_About ?s) = Some 1"
    by (simp add: eval_defs)
  from main_closed_requests_close [OF ok reg] ne ab ok reg show ?thesis
    by blast
qed

text \<open>
  \<^verbatim>\<open>show(Main)\<close>, \<^verbatim>\<open>show(About)\<close>, then the close notification of the main window
  (handle 0): About was Created before the notification and is Created after it, with
  the same window; only Main has become Absent.
\<close>

theorem main_closed_cascade_counterexample:
  "fst (getWindow WindowTypes_About (showAbout (showMain (constructor env0)))) = Some 1
   \<and> step (Closed 0) (showAbout (showMain (constructor env0)))
       = Inr (emit_closed 0 (showAbout (showMain (constructor env0))))
   \<and> fst (getWindow WindowTypes_Main
            (emit_closed 0 (showAbout (showMain (constructor env0))))) = None
   \<and> fst (getWindow WindowTypes_About
            (emit_closed 0 (showAbout (showMain (constructor env0))))) = Some 1
   \<and> fst (getWindow WindowTypes_About
            (emit_closed 0 (showAbout (showMain (constructor env0))))) \<noteq> None"
  by (simp add: eval_defs)

text \<open>
  C2. No operation of the manager throws, and \<^verbatim>\<open>show\<close> on a type outside its dispatch
  is a silent no-op. The code departs from this at \<^verbatim>\<open>undefined\<close>, the value of
  \<^verbatim>\<open>WindowTypes.GraphicEqualizer\<close>: the \<^verbatim>\<open>switch\<close> has a case for it, which calls a
  method the class does not define. There \<^verbatim>\<open>show\<close> throws a \<^verbatim>\<open>TypeError\<close> in every
  state, and so does \<^verbatim>\<open>toggle\<close>, which delegates to it when the type has no window.
\<close>

theorem show_GraphicEqualizer_throws:
  "WindowTypes_GraphicEqualizer = Undefined
   \<and> show_win Undefined s = Inl (TypeError ''this._showGraphicEqualizer is not a function'')
   \<and> toggle Undefined (constructor e)
       = Inl (TypeError ''this._showGraphicEqualizer is not a function'')"
  by (simp add: show_win_def toggle_def constructor_def Map_get_def WindowTypes_values)

text \<open>
  C3. For every window type except Main, \<^verbatim>\<open>toggle(type)\<close> from a state in which the
  type's entry is Absent gives the same result as \<^verbatim>\<open>show(type)\<close> from that state.
\<close>

theorem toggle_absent_is_show:
  "type \<noteq> WindowTypes_Main \<Longrightarrow> fst (getWindow type s) = None
   \<Longrightarrow> toggle type s = show_win type s"
  by (simp add: toggle_def getWindow_def)

theorem toggle_absent_is_show_witness:
  "WindowTypes_About \<noteq> WindowTypes_Main
   \<and> fst (getWindow WindowTypes_About (constructor env0)) = None
   \<and> toggle WindowTypes_About (constructor env0) = show_win WindowTypes_About (constructor env0)
   \<and> show_win WindowTypes_About (constructor env0) = Inr (showAbout (constructor env0))"
proof -
  have a: "WindowTypes_About \<noteq> WindowTypes_Main"
    by (simp add: WindowTypes_values)
  have b: "fst (getWindow WindowTypes_About (constructor env0)) = None"
    by (simp add: constructor_def Map_get_def getWindow_def)
  show ?thesis
    using a b toggle_absent_is_show [OF a b] by (simp add: show_win_def)
qed

text \<open>
  C4. \<^verbatim>\<open>show(About)\<close>, and likewise \<^verbatim>\<open>show(Main)\<close>, is idempotent: the call returns
  normally, and a second call right after it changes nothing at all, so it creates no
  window and leaves the registry as it is. When the type was Absent the two calls
  together create exactly one window; when its window already existed the first call
  changes nothing either.
\<close>

theorem show_idempotent:
  assumes "type = WindowTypes_About \<or> type = WindowTypes_Main"
  shows "\<exists>s1. show_win type s = Inr s1 \<and> show_win type s1 = Inr s1
        \<and> (fst (getWindow type s) = None \<longrightarrow> creations s1 = Suc (creations s))
        \<and> (fst (getWindow type s) \<noteq> None \<longrightarrow> s1 = s)"
  using assms
proof
  assume t: "type = WindowTypes_About"
  have "show_win type s = Inr (showAbout s)"
    by (simp add: t show_win_def WindowTypes_values)
  moreover have "show_win type (showAbout s) = Inr (showAbout s)"
    by (simp add: t show_win_def WindowTypes_values showAbout_present [OF showAbout_registers])
  ultimately show ?thesis
    by (simp add: t getWindow_def creations_showAbout showAbout_present)
next
  assume t: "type = WindowTypes_Main"
  have "show_win type s = Inr (showMain s)"
    by (simp add: t show_win_def)
  moreover have "show_win type (showMain s) = Inr (showMain s)"
    by (simp add: t show_win_def showMain_present [OF showMain_registers])
  ultimately show ?thesis
    by (simp add: t getWindow_def creations_showMain showMain_present)
qed

theorem show_idempotent_witness:
  "(WindowTypes_About = WindowTypes_About \<or> WindowTypes_About = WindowTypes_Main)
   \<and> fst (getWindow WindowTypes_About (constructor env0)) = None
   \<and> (\<exists>s1. show_win WindowTypes_About (constructor env0) = Inr s1
          \<and> show_win WindowTypes_About s1 = Inr s1
          \<and> creations s1 = Suc (creations (constructor env0)))
   \<and> (WindowTypes_Main = WindowTypes_About \<or> WindowTypes_Main = WindowTypes_Main)
   \<and> fst (getWindow WindowTypes_Main (showMain (constructor env0))) \<noteq> None
   \<and> show_win WindowTypes_Main (showMain (constructor env0)) = Inr (showMain (constructor env0))"
proof -
  have a: "fst (getWindow WindowTypes_About (constructor env0)) = None"
    by (simp add: eval_defs)
  have b: "fst (getWindow WindowTypes_Main (showMain (constructor env0))) \<noteq> None"
    by (simp add: eval_defs)
  from show_idempotent [of WindowTypes_About "constructor env0"]
    show_idempotent [of WindowTypes_Main "showMain (constructor env0)"] a b
  show ?thesis by auto
qed

text \<open>
  C5. For every prior state, \<^verbatim>\<open>toggle(Main)\<close> changes nothing: the call returns
  normally and the whole state (the registry, every window's visibility, the log of
  requests) is the state before the call.
\<close>

theorem toggle_Main_noop: "toggle WindowTypes_Main s = Inr s"
  by (simp add: toggle_def)

text \<open>
  C6. For every type whose registry entry is Absent, \<^verbatim>\<open>close(type)\<close> is a no-op: it
  returns normally with the state it was given, so no close request is logged and the
  registry and the windows are unchanged.
\<close>

theorem close_absent_noop: "fst (getWindow type s) = None \<Longrightarrow> close type s = Inr s"
  by (simp add: close_def getWindow_def)

theorem close_absent_noop_witness:
  "fst (getWindow WindowTypes_About (showMain (constructor env0))) = None
   \<and> close WindowTypes_About (showMain (constructor env0)) = Inr (showMain (constructor env0))"
proof -
  have a: "fst (getWindow WindowTypes_About (showMain (constructor env0))) = None"
    by (simp add: eval_defs)
  from a close_absent_noop [OF a] show ?thesis by simp
qed



text \<open>
  C8. For every string \<open>url\<close> and every sender, handling one inbound show-URL message
  returns normally, whatever the string is and whatever the shell answers, and adds to
  the log, after the console line, exactly one call of the shell's \<^verbatim>\<open>openExternal\<close>
  with that very string and exactly one \<^verbatim>\<open>FinishShowURL\<close> message sent to that
  sender; the rest of the state is unchanged.
\<close>

theorem onRequestShowURL_effects:
  "\<exists>s'. onRequestShowURL sender url s = Inr s'
     \<and> effects s' = effects s @ [ConsoleLog url,
                                   OpenExternal url (shell_openExternal (genv s) url),
                                   SenderSend sender (IPCKeys_FinishShowURL (genv s))]
     \<and> windows s' = windows s \<and> heap s' = heap s \<and> focused s' = focused s
     \<and> next_handle s' = next_handle s \<and> genv s' = genv s"
  by (simp add: onRequestShowURL_def emit_def)

text \<open>
  C10. In every state, \<^verbatim>\<open>reload()\<close> and \<^verbatim>\<open>toggleDevTools()\<close> return normally and leave
  the registry and the windows' store unchanged: they log one request to the focused
  window, and when no window has the focus they change nothing.
\<close>

theorem reload_toggleDevTools_registry:
  "(\<exists>s'. reload s = Inr s' \<and> windows s' = windows s \<and> heap s' = heap s
          \<and> effects s' = effects s @ (case focused s of None \<Rightarrow> [] | Some w \<Rightarrow> [WinReload w]))
   \<and> (\<exists>s'. toggleDevTools s = Inr s' \<and> windows s' = windows s \<and> heap s' = heap s
          \<and> effects s' = effects s
               @ (case focused s of None \<Rightarrow> [] | Some w \<Rightarrow> [WinToggleDevTools w]))
   \<and> (focused s = None \<longrightarrow> reload s = Inr s \<and> toggleDevTools s = Inr s)"
  by (simp add: reload_def toggleDevTools_def emit_def split: option.splits)

theorem reload_toggleDevTools_registry_witness:
  "focused (constructor env0) = None
   \<and> reload (constructor env0) = Inr (constructor env0)
   \<and> toggleDevTools (constructor env0) = Inr (constructor env0)
   \<and> focused ((showMain (constructor env0))\<lparr>focused := Some 0\<rparr>) = Some 0
   \<and> (\<exists>s'. reload ((showMain (constructor env0))\<lparr>focused := Some 0\<rparr>) = Inr s'
         \<and> windows s' = windows (showMain (constructor env0))
         \<and> effects s' = effects (showMain (constructor env0)) @ [WinReload 0])"
proof -
  have a: "focused (constructor env0) = None"
    by (simp add: constructor_def)
  from reload_toggleDevTools_registry [of "constructor env0"]
    reload_toggleDevTools_registry [of "(showMain (constructor env0))\<lparr>focused := Some 0\<rparr>"] a
  show ?thesis by auto
qed

section \<open>Properties of the state binding\<close>

text \<open>
  C9. For every application state, the read mapping returns the state's \<open>folders\<close> and
  \<open>currentFolder\<close> unchanged. Each of the two write callbacks is \<^verbatim>\<open>dispatch\<close> applied to
  the action built from the callback's argument; on a store that records what it is
  given, one call of a callback adds exactly that one action.
\<close>

theorem state_binding:
  "folders (mapStateToProps st) = folders st
   \<and> currentFolder (mapStateToProps st) = currentFolder st
   \<and> enumSubFolders (mapDispatchToProps dispatch mkS mkI) p = dispatch (mkS p)
   \<and> enumItems (mapDispatchToProps dispatch mkS mkI) f = dispatch (mkI f)
   \<and> enumSubFolders (mapDispatchToProps recording_dispatch mkS mkI) p log = log @ [mkS p]
   \<and> enumItems (mapDispatchToProps recording_dispatch mkS mkI) f log = log @ [mkI f]"
  by (simp add: mapStateToProps_def mapDispatchToProps_def recording_dispatch_def)

end
